theory Spec2Isabelle
  imports Complex_Main "HOL-Library.Multiset"
begin

section \<open>Data model of the greedy join reorder solver\<close>

text \<open>
  The solver of \<^verbatim>\<open>planner/core/rule_join_reorder_greedy.go\<close> works on logical plans, on
  the equality edges between their columns and on the remaining (residual) conditions.
  The types of these are declared outside the file.
\<close>

text \<open>
  Modelled from the spec: a column, identified by its unique id, and a schema, the
  ordered list of the output columns of a plan.
\<close>

type_synonym column = nat

type_synonym schema = "column list"

text \<open>
  Modelled from the spec: an equality edge is an equality predicate between exactly two
  columns, kept with the orientation of the predicate it comes from. In the file it is
  a scalar function \<^verbatim>\<open>EQ\<close>: \<^verbatim>\<open>edge.GetArgs()[0]\<close> is the left column,
  \<^verbatim>\<open>edge.GetArgs()[1]\<close> the right one.
\<close>

datatype eqEdge = EQ column column

text \<open>
  Modelled from the spec: a residual predicate (an element of \<^verbatim>\<open>otherConds\<close>) carries the
  columns it refers to; the solver looks at nothing else of the expression. It is kept as
  an identifier with the list of the referenced columns.
\<close>

datatype expr = Cond nat "column list"

text \<open>
  Modelled from the spec: a logical plan is a member of the join group (an operator
  subtree the solver does not look into, with its schema), or a join built by the join
  builder from two plans, the equal conditions and the other conditions attached to it.
\<close>

datatype plan =
    Member nat schema
  | LogicalJoin plan plan "eqEdge list" "expr list"

text \<open>A Go \<^verbatim>\<open>error\<close> value.\<close>

type_synonym err = string

text \<open>A Go call returns, or panics at run time (an index out of range).\<close>

datatype 'a go = Return 'a | Panic

text \<open>
  Plan costs are \<^verbatim>\<open>float64\<close> values, of which the solver uses the comparison only. The
  values other than NaN are linearly ordered and embed into the reals with their order
  (an infinity goes beyond the largest finite value), so a cost is a real number and
  \<^verbatim>\<open>math.MaxFloat64\<close> is the real number \<open>(2^53 - 1) * 2^971\<close>.
\<close>

definition MaxFloat64 :: real where
  "MaxFloat64 = (2 ^ 53 - 1) * 2 ^ 971"

text \<open>\<^verbatim>\<open>jrNode\<close>: a plan with its cumulative cost.\<close>

record jrNode =
  p :: plan
  cumCost :: real

text \<open>
  Modelled from the spec: the working state of the join group, which the solver embeds
  from its base solver: the nodes of the group that are not in a join tree yet
  (\<^verbatim>\<open>s.curJoinGroup\<close>) and the residual conditions not attached to a join yet
  (\<^verbatim>\<open>s.otherConds\<close>); with them the field \<^verbatim>\<open>eqEdges\<close> of \<^verbatim>\<open>joinReorderGreedySolver\<close>.
\<close>

record solver =
  curJoinGroup :: "jrNode list"
  otherConds :: "expr list"
  eqEdges :: "eqEdge list"

text \<open>
  The functions the solver calls on plans and whose code is outside the file are
  parameters: the derivation of the statistics of a plan (\<open>None\<close> when it succeeds, the
  error when it fails), the cumulative cost of a member, and the cumulative cost of a
  join of two nodes.
\<close>

record collab =
  recursiveDeriveStats :: "plan \<Rightarrow> err option"
  baseNodeCumCost :: "plan \<Rightarrow> real"
  calcJoinCumCost :: "plan \<Rightarrow> jrNode \<Rightarrow> jrNode \<Rightarrow> real"

section \<open>Schemas and expressions\<close>

text \<open>
  Modelled from the spec: \<^verbatim>\<open>expression.MergeSchema\<close>, the union of the output columns of
  both subtrees, the left ones first.
\<close>

definition MergeSchema :: "schema \<Rightarrow> schema \<Rightarrow> schema" where
  "MergeSchema lSchema rSchema = lSchema @ rSchema"

text \<open>
  Modelled from the spec: the schema of a plan. A join built by the join builder has the
  merged schema of its children.
\<close>

fun Schema :: "plan \<Rightarrow> schema" where
  "Schema (Member n sch) = sch"
| "Schema (LogicalJoin l r eqs others) = MergeSchema (Schema l) (Schema r)"

text \<open>Modelled from the spec: \<^verbatim>\<open>Schema.Contains\<close>, the column is one of the schema.\<close>

definition Contains :: "schema \<Rightarrow> column \<Rightarrow> bool" where
  "Contains sch c = (c \<in> set sch)"

text \<open>
  Modelled from the spec: \<^verbatim>\<open>expression.ExprFromSchema\<close>, every column the expression
  refers to is contained in the schema.
\<close>

fun ExprFromSchema :: "expr \<Rightarrow> schema \<Rightarrow> bool" where
  "ExprFromSchema (Cond n cols) sch = list_all (Contains sch) cols"

text \<open>
  Modelled from the spec: \<^verbatim>\<open>expression.FilterOutInPlace\<close> partitions its input, scanned
  from the last element to the first: the expressions the filter accepts are filtered
  out (in the order of the scan), the others remain in their order.
\<close>

fun FilterOutInPlace :: "expr list \<Rightarrow> (expr \<Rightarrow> bool) \<Rightarrow> expr list \<times> expr list" where
  "FilterOutInPlace [] f = ([], [])"
| "FilterOutInPlace (x # xs) f =
     (case FilterOutInPlace xs f of (remained, filteredOut) \<Rightarrow>
        if f x then (remained, filteredOut @ [x]) else (x # remained, filteredOut))"

section \<open>The join builders\<close>

text \<open>
  Modelled from the spec: \<^verbatim>\<open>newJoinWithEdges\<close>, the join of two subtrees with the matched
  equality edges and the attached residual conditions.
\<close>

definition newJoinWithEdges :: "plan \<Rightarrow> plan \<Rightarrow> eqEdge list \<Rightarrow> expr list \<Rightarrow> plan" where
  "newJoinWithEdges lChild rChild eqs others = LogicalJoin lChild rChild eqs others"

text \<open>Modelled from the spec: the cross join of two subtrees, a join with no predicate.\<close>

definition newCartesianJoin :: "plan \<Rightarrow> plan \<Rightarrow> plan" where
  "newCartesianJoin lChild rChild = LogicalJoin lChild rChild [] []"

text \<open>
  Modelled from the spec: \<^verbatim>\<open>makeBushyJoin\<close> combines the ordered list of component trees
  by successive cross joins into one tree: neighbours are joined pairwise, round after
  round. One tree is returned unchanged; an empty list gives no plan.
\<close>

fun joinPairs :: "plan list \<Rightarrow> plan list" where
  "joinPairs (a # b # rest) = newCartesianJoin a b # joinPairs rest"
| "joinPairs [a] = [a]"
| "joinPairs [] = []"

function makeBushyJoin :: "plan list \<Rightarrow> plan option" where
  "makeBushyJoin [] = None"
| "makeBushyJoin [t] = Some t"
| "makeBushyJoin (a # b # rest) = makeBushyJoin (joinPairs (a # b # rest))"
  by pat_completeness auto
termination
proof (relation "measure length")
  have len: "length (joinPairs ts) = (length ts + 1) div 2" for ts
    by (induction ts rule: joinPairs.induct) auto
  show "wf (measure length)" by simp
  show "(joinPairs (a # b # rest), a # b # rest) \<in> measure length" for a b rest
    by (simp add: len)
qed

section \<open>checkConnectionAndMakeJoin\<close>

text \<open>
  The loop over \<^verbatim>\<open>s.eqEdges\<close>: an edge is used as it is when the left node has its left
  column and the right node its right column; otherwise, when the right node has its left
  column and the left node its right column, a new equality with the columns swapped is
  used.
\<close>

fun usedEdges :: "plan \<Rightarrow> plan \<Rightarrow> eqEdge list \<Rightarrow> eqEdge list" where
  "usedEdges leftNode rightNode [] = []"
| "usedEdges leftNode rightNode (EQ lCol rCol # edges) =
     (if Contains (Schema leftNode) lCol \<and> Contains (Schema rightNode) rCol
      then EQ lCol rCol # usedEdges leftNode rightNode edges
      else if Contains (Schema rightNode) lCol \<and> Contains (Schema leftNode) rCol
      then EQ rCol lCol # usedEdges leftNode rightNode edges
      else usedEdges leftNode rightNode edges)"

text \<open>
  The result is the pair of the new join (\<open>None\<close> is \<^verbatim>\<open>nil\<close>) and the remaining other
  conditions. The solver is read, not written.
\<close>

definition checkConnectionAndMakeJoin ::
  "solver \<Rightarrow> plan \<Rightarrow> plan \<Rightarrow> plan option \<times> expr list" where
  "checkConnectionAndMakeJoin s leftNode rightNode =
     (let used = usedEdges leftNode rightNode (eqEdges s) in
      if length used = 0 then (None, [])
      else
        let mergedSchema = MergeSchema (Schema leftNode) (Schema rightNode) in
        case FilterOutInPlace (otherConds s) (\<lambda>e. ExprFromSchema e mergedSchema) of
          (remainOtherConds, others) \<Rightarrow>
            (Some (newJoinWithEdges leftNode rightNode used others), remainOtherConds))"

section \<open>constructConnectedJoinTree\<close>

text \<open>The local variables of one round of the outer loop.\<close>

record best =
  bestCost :: real
  bestIdx :: int
  finalRemainOthers :: "expr list"
  bestJoin :: "plan option"

definition initBest :: best where
  "initBest = \<lparr>bestCost = MaxFloat64, bestIdx = - 1, finalRemainOthers = [], bestJoin = None\<rparr>"

text \<open>
  The inner loop \<^verbatim>\<open>for i, node := range s.curJoinGroup\<close>, from index \<open>i\<close> on: a node that
  does not connect is skipped, a failing derivation of the statistics of the new join
  returns the error, and a new join that costs less than the best one replaces it.
\<close>

fun scanNodes :: "collab \<Rightarrow> solver \<Rightarrow> jrNode \<Rightarrow> int \<Rightarrow> jrNode list \<Rightarrow> best \<Rightarrow> err + best" where
  "scanNodes c s curJoinTree i [] b = Inr b"
| "scanNodes c s curJoinTree i (node # nodes) b =
     (case checkConnectionAndMakeJoin s (p curJoinTree) (p node) of
        (None, remainOthers) \<Rightarrow> scanNodes c s curJoinTree (i + 1) nodes b
      | (Some newJoin, remainOthers) \<Rightarrow>
          (case recursiveDeriveStats c newJoin of
             Some e \<Rightarrow> Inl e
           | None \<Rightarrow>
               let curCost = calcJoinCumCost c newJoin curJoinTree node in
               if bestCost b > curCost
               then scanNodes c s curJoinTree (i + 1) nodes
                      \<lparr>bestCost = curCost, bestIdx = i,
                       finalRemainOthers = remainOthers, bestJoin = Some newJoin\<rparr>
               else scanNodes c s curJoinTree (i + 1) nodes b))"

text \<open>
  \<^verbatim>\<open>append(s.curJoinGroup[:bestIdx], s.curJoinGroup[bestIdx+1:]...)\<close>; the slice
  expressions panic when the index is out of range.
\<close>

definition removeAt :: "int \<Rightarrow> jrNode list \<Rightarrow> jrNode list go" where
  "removeAt i xs =
     (if 0 \<le> i \<and> i + 1 \<le> int (length xs)
      then Return (take (nat i) xs @ drop (nat (i + 1)) xs)
      else Panic)"

text \<open>
  The outer loop \<^verbatim>\<open>for { ... }\<close> with the current join tree. A Go result
  \<^verbatim>\<open>(*jrNode, error)\<close> is a pair of options, \<open>None\<close> for \<^verbatim>\<open>nil\<close>; it comes with the
  state of the solver at the return. The outer \<open>None\<close> is a loop that does not end.
\<close>

partial_function (option) growLoop ::
  "collab \<Rightarrow> solver \<Rightarrow> jrNode \<Rightarrow> ((jrNode option \<times> err option) go \<times> solver) option" where
  "growLoop c s curJoinTree =
     (case scanNodes c s curJoinTree 0 (curJoinGroup s) initBest of
        Inl e \<Rightarrow> Some (Return (None, Some e), s)
      | Inr b \<Rightarrow>
          (case bestJoin b of
             None \<Rightarrow> Some (Return (Some curJoinTree, None), s)
           | Some j \<Rightarrow>
               (case removeAt (bestIdx b) (curJoinGroup s) of
                  Panic \<Rightarrow> Some (Panic, s)
                | Return rest \<Rightarrow>
                    growLoop c (s\<lparr>curJoinGroup := rest, otherConds := finalRemainOthers b\<rparr>)
                      \<lparr>p = j, cumCost = bestCost b\<rparr>)))"

definition constructConnectedJoinTree ::
  "collab \<Rightarrow> solver \<Rightarrow> ((jrNode option \<times> err option) go \<times> solver) option" where
  "constructConnectedJoinTree c s =
     (case curJoinGroup s of
        [] \<Rightarrow> Some (Panic, s)
      | curJoinTree # rest \<Rightarrow> growLoop c (s\<lparr>curJoinGroup := rest\<rparr>) curJoinTree)"

section \<open>solve\<close>

text \<open>
  The first loop of \<^verbatim>\<open>solve\<close>: the statistics of every node of the group are derived and
  the node is appended to \<^verbatim>\<open>s.curJoinGroup\<close> with its cost; the first failure returns.
\<close>

fun seedGroup :: "collab \<Rightarrow> solver \<Rightarrow> plan list \<Rightarrow> err option \<times> solver" where
  "seedGroup c s [] = (None, s)"
| "seedGroup c s (node # nodes) =
     (case recursiveDeriveStats c node of
        Some e \<Rightarrow> (Some e, s)
      | None \<Rightarrow>
          seedGroup c
            (s\<lparr>curJoinGroup := curJoinGroup s @ [\<lparr>p = node, cumCost = baseNodeCumCost c node\<rparr>]\<rparr>)
            nodes)"

text \<open>
  The loop \<^verbatim>\<open>for len(s.curJoinGroup) > 0\<close> that collects the join trees of the connected
  parts in \<^verbatim>\<open>cartesianGroup\<close>, and the bushy join of them at its end. Reading the
  plan of a \<^verbatim>\<open>nil\<close> node panics.
\<close>

partial_function (option) solveLoop ::
  "collab \<Rightarrow> solver \<Rightarrow> plan list \<Rightarrow> ((plan option \<times> err option) go \<times> solver) option" where
  "solveLoop c s cartesianGroup =
     (if length (curJoinGroup s) > 0
      then
        (case constructConnectedJoinTree c s of
           None \<Rightarrow> None
         | Some (Panic, s') \<Rightarrow> Some (Panic, s')
         | Some (Return (newNode, Some e), s') \<Rightarrow> Some (Return (None, Some e), s')
         | Some (Return (None, None), s') \<Rightarrow> Some (Panic, s')
         | Some (Return (Some newNode, None), s') \<Rightarrow>
             solveLoop c s' (cartesianGroup @ [p newNode]))
      else Some (Return (makeBushyJoin cartesianGroup, None), s))"

text \<open>\<^verbatim>\<open>sort.SliceStable\<close> by the cumulative cost is the stable insertion sort by that key.\<close>

definition solve ::
  "collab \<Rightarrow> solver \<Rightarrow> plan list \<Rightarrow> ((plan option \<times> err option) go \<times> solver) option" where
  "solve c s joinNodePlans =
     (case seedGroup c s joinNodePlans of
        (Some e, s1) \<Rightarrow> Some (Return (None, Some e), s1)
      | (None, s1) \<Rightarrow>
          solveLoop c (s1\<lparr>curJoinGroup := sort_key cumCost (curJoinGroup s1)\<rparr>) [])"

text \<open>The equations of the two loops are their code equations.\<close>

declare growLoop.simps [code] solveLoop.simps [code]

section \<open>checkConnectionAndMakeJoin on the memory of the slices\<close>

text \<open>
  The function above works on the values of the slices. What a call writes shows on the
  backing arrays only: the memory is the list of the arrays of expressions allocated so
  far, an address is an index of it, and a slice is the address of its array with its
  length (the slices of the function start at the first element of their array).
\<close>

type_synonym addr = nat

type_synonym mem = "expr list list"

record slice =
  slBase :: addr
  slLen :: nat

text \<open>The elements of a slice.\<close>

definition readSlice :: "mem \<Rightarrow> slice \<Rightarrow> expr list" where
  "readSlice h sl = take (slLen sl) (h ! slBase sl)"

text \<open>
  The solver with \<^verbatim>\<open>s.otherConds\<close> as a slice of the memory, and the solver of the sections
  above that it stands for.
\<close>

record solverM =
  curJoinGroupM :: "jrNode list"
  otherCondsM :: slice
  eqEdgesM :: "eqEdge list"

definition solverOf :: "mem \<Rightarrow> solverM \<Rightarrow> solver" where
  "solverOf h s = \<lparr>curJoinGroup = curJoinGroupM s, otherConds = readSlice h (otherCondsM s),
     eqEdges = eqEdgesM s\<rparr>"

text \<open>
  Modelled from the spec: \<^verbatim>\<open>expression.FilterOutInPlace\<close> on the memory. It filters its
  input in place: from the last index \<open>i\<close> to the first, an element the filter accepts is
  appended to the slice \<^verbatim>\<open>filteredOut\<close> and taken out of the input by
  \<^verbatim>\<open>append(input[:i], input[i+1:]...)\<close>, which moves the elements behind it one place
  down in the array of the input. The slice \<^verbatim>\<open>filteredOut\<close> gets a new array.
\<close>

fun filterOutLoop ::
  "(expr \<Rightarrow> bool) \<Rightarrow> nat \<Rightarrow> expr list \<Rightarrow> nat \<Rightarrow> expr list \<Rightarrow> expr list \<times> nat \<times> expr list" where
  "filterOutLoop f 0 arr n filteredOut = (arr, n, filteredOut)"
| "filterOutLoop f (Suc i) arr n filteredOut =
     (if f (arr ! i)
      then filterOutLoop f i (take i arr @ drop (Suc i) (take n arr) @ drop (n - 1) arr) (n - 1)
             (filteredOut @ [arr ! i])
      else filterOutLoop f i arr n filteredOut)"

definition FilterOutInPlaceM :: "mem \<Rightarrow> slice \<Rightarrow> (expr \<Rightarrow> bool) \<Rightarrow> (slice \<times> slice) \<times> mem" where
  "FilterOutInPlaceM h input f =
     (case filterOutLoop f (slLen input) (h ! slBase input) (slLen input) [] of
        (arr, n, filteredOut) \<Rightarrow>
          ((\<lparr>slBase = slBase input, slLen = n\<rparr>,
            \<lparr>slBase = length h, slLen = length filteredOut\<rparr>),
           h[slBase input := arr] @ [filteredOut]))"

text \<open>
  \<^verbatim>\<open>make\<close> allocates the array of \<^verbatim>\<open>remainOtherConds\<close> and \<^verbatim>\<open>copy\<close> fills it with the
  elements of \<^verbatim>\<open>s.otherConds\<close>; the filter then works on that array. The result is the
  new join and the slice of the remaining conditions (\<open>None\<close> is \<^verbatim>\<open>nil\<close>), with the memory
  after the call.
\<close>

definition checkConnectionAndMakeJoinM ::
  "mem \<Rightarrow> solverM \<Rightarrow> plan \<Rightarrow> plan \<Rightarrow> (plan option \<times> slice option) \<times> mem" where
  "checkConnectionAndMakeJoinM h s leftNode rightNode =
     (let remainOtherConds = \<lparr>slBase = length h, slLen = slLen (otherCondsM s)\<rparr>;
          h1 = h @ [readSlice h (otherCondsM s)];
          used = usedEdges leftNode rightNode (eqEdgesM s) in
      if length used = 0 then ((None, None), h1)
      else
        let mergedSchema = MergeSchema (Schema leftNode) (Schema rightNode) in
        case FilterOutInPlaceM h1 remainOtherConds (\<lambda>e. ExprFromSchema e mergedSchema) of
          ((remain, others), h2) \<Rightarrow>
            ((Some (newJoinWithEdges leftNode rightNode used (readSlice h2 others)), Some remain),
             h2))"

section \<open>Notions the properties are stated with\<close>

text \<open>The columns an expression refers to.\<close>

fun exprCols :: "expr \<Rightarrow> column list" where
  "exprCols (Cond n cols) = cols"

text \<open>
  An edge matches a pair of subtrees as it is when the left subtree has its left column
  and the right subtree its right column; it matches swapped when the right subtree has
  its left column and the left subtree its right column.
\<close>

fun edgeMatchesAsIs :: "plan \<Rightarrow> plan \<Rightarrow> eqEdge \<Rightarrow> bool" where
  "edgeMatchesAsIs l r (EQ lc rc) = (lc \<in> set (Schema l) \<and> rc \<in> set (Schema r))"

fun edgeMatchesSwapped :: "plan \<Rightarrow> plan \<Rightarrow> eqEdge \<Rightarrow> bool" where
  "edgeMatchesSwapped l r (EQ lc rc) = (lc \<in> set (Schema r) \<and> rc \<in> set (Schema l))"

fun swapEdge :: "eqEdge \<Rightarrow> eqEdge" where
  "swapEdge (EQ lc rc) = EQ rc lc"

text \<open>
  The cumulative cost of the candidate a node gives with the current join tree, when
  the two connect.
\<close>

definition candidateCost :: "collab \<Rightarrow> solver \<Rightarrow> jrNode \<Rightarrow> jrNode \<Rightarrow> real option" where
  "candidateCost c s curJoinTree node =
     (case fst (checkConnectionAndMakeJoin s (p curJoinTree) (p node)) of
        None \<Rightarrow> None
      | Some newJoin \<Rightarrow> Some (calcJoinCumCost c newJoin curJoinTree node))"

text \<open>A solver state with four residual conditions and three edges, for the examples.\<close>

definition exSolver :: solver where
  "exSolver = \<lparr>curJoinGroup = [], otherConds = [Cond 0 [1, 3], Cond 1 [1, 2], Cond 2 [2], Cond 3 [4]],
     eqEdges = [EQ 2 1, EQ 1 2, EQ 3 4]\<rparr>"

text \<open>
  A group of four members with one column each, its edges and a residual condition, for
  the examples; the cost of a join is the sum of the costs of its two sides.
\<close>

definition exCollab :: collab where
  "exCollab = \<lparr>recursiveDeriveStats = (\<lambda>q. None),
     baseNodeCumCost = (\<lambda>q. case q of Member n sch \<Rightarrow> real n | LogicalJoin l r eqs others \<Rightarrow> 0),
     calcJoinCumCost = (\<lambda>j l r. cumCost l + cumCost r)\<rparr>"

definition exGroup :: "plan list" where
  "exGroup = [Member 5 [2], Member 1 [1], Member 3 [3], Member 3 [4]]"

definition exEdges :: "eqEdge list" where
  "exEdges = [EQ 1 2, EQ 3 1, EQ 1 4]"

definition exFresh :: solver where
  "exFresh = \<lparr>curJoinGroup = [], otherConds = [Cond 0 [1, 3]], eqEdges = exEdges\<rparr>"

definition exTree :: jrNode where
  "exTree = \<lparr>p = Member 1 [1], cumCost = 1\<rparr>"

definition exState :: solver where
  "exState = \<lparr>curJoinGroup = [\<lparr>p = Member 5 [2], cumCost = 5\<rparr>, \<lparr>p = Member 3 [3], cumCost = 3\<rparr>,
      \<lparr>p = Member 3 [4], cumCost = 3\<rparr>], otherConds = [Cond 0 [1, 3]], eqEdges = exEdges\<rparr>"

text \<open>
  A cost function that gives every join the cost \<^verbatim>\<open>math.MaxFloat64\<close>, and a state with
  one node that connects to the tree of the example.
\<close>

definition exSentinelCollab :: collab where
  "exSentinelCollab = \<lparr>recursiveDeriveStats = (\<lambda>q. None),
     baseNodeCumCost = (\<lambda>q. 1), calcJoinCumCost = (\<lambda>j l r. MaxFloat64)\<rparr>"

definition exPair :: solver where
  "exPair = \<lparr>curJoinGroup = [\<lparr>p = Member 5 [2], cumCost = 1\<rparr>], otherConds = [], eqEdges = [EQ 1 2]\<rparr>"

text \<open>
  A group of five members; a derivation of the statistics that fails on the join of a
  join tree with the member of column 2, and one that fails on a member of the group.
\<close>

definition exGroup5 :: "plan list" where
  "exGroup5 = [Member 5 [2], Member 1 [1], Member 3 [3], Member 3 [4], Member 4 [5]]"

definition exFresh5 :: solver where
  "exFresh5 = \<lparr>curJoinGroup = [], otherConds = [Cond 0 [1, 3]],
     eqEdges = [EQ 1 2, EQ 3 1, EQ 1 4, EQ 1 5]\<rparr>"

definition exFailCollab :: collab where
  "exFailCollab = \<lparr>recursiveDeriveStats =
       (\<lambda>q. case q of
          Member n sch \<Rightarrow> None
        | LogicalJoin l r eqs others \<Rightarrow>
            (case l of
               Member n sch \<Rightarrow> None
             | LogicalJoin l1 r1 eqs1 others1 \<Rightarrow>
                 if r = Member 5 [2] then Some ''stats'' else None)),
     baseNodeCumCost = (\<lambda>q. case q of Member n sch \<Rightarrow> real n | LogicalJoin l r eqs others \<Rightarrow> 0),
     calcJoinCumCost = (\<lambda>j l r. cumCost l + cumCost r)\<rparr>"

definition exSeedFailCollab :: collab where
  "exSeedFailCollab = \<lparr>recursiveDeriveStats = (\<lambda>q. if q = Member 3 [3] then Some ''seed'' else None),
     baseNodeCumCost = (\<lambda>q. case q of Member n sch \<Rightarrow> real n | LogicalJoin l r eqs others \<Rightarrow> 0),
     calcJoinCumCost = (\<lambda>j l r. cumCost l + cumCost r)\<rparr>"

text \<open>The conditions of the first example in an array of the memory.\<close>

definition exMem :: mem where
  "exMem = [[Cond 0 [1, 3], Cond 1 [1, 2], Cond 2 [2], Cond 3 [4]]]"

definition exSolverM :: solverM where
  "exSolverM = \<lparr>curJoinGroupM = [], otherCondsM = \<lparr>slBase = 0, slLen = 4\<rparr>,
     eqEdgesM = [EQ 2 1, EQ 1 2, EQ 3 4]\<rparr>"













text \<open>The two columns of an edge, whatever its orientation.\<close>

fun edgeCols :: "eqEdge \<Rightarrow> column set" where
  "edgeCols (EQ lc rc) = {lc, rc}"







section \<open>Lemmas on checkConnectionAndMakeJoin\<close>

lemma usedEdges_eq:
  "usedEdges l r es =
     map (\<lambda>e. if edgeMatchesAsIs l r e then e else swapEdge e)
       (filter (\<lambda>e. edgeMatchesAsIs l r e \<or> edgeMatchesSwapped l r e) es)"
  by (induction l r es rule: usedEdges.induct) (auto simp: Contains_def)

lemma FilterOutInPlace_eq:
  "FilterOutInPlace xs f = (filter (\<lambda>x. \<not> f x) xs, rev (filter f xs))"
  by (induction xs) auto

lemma ExprFromSchema_iff: "ExprFromSchema e sch \<longleftrightarrow> set (exprCols e) \<subseteq> set sch"
  by (cases e) (auto simp: list_all_iff Contains_def)

lemma cc_None: "fst (checkConnectionAndMakeJoin s l r) = None \<longleftrightarrow> usedEdges l r (eqEdges s) = []"
  by (auto simp: checkConnectionAndMakeJoin_def Let_def split: prod.splits)

lemma cc_None': "usedEdges l r (eqEdges s) = [] \<Longrightarrow> checkConnectionAndMakeJoin s l r = (None, [])"
  by (simp add: checkConnectionAndMakeJoin_def)

lemma cc_Some: "usedEdges l r (eqEdges s) \<noteq> [] \<Longrightarrow> checkConnectionAndMakeJoin s l r =
   (Some (LogicalJoin l r (usedEdges l r (eqEdges s)) (rev (filter (\<lambda>e. ExprFromSchema e (Schema l @ Schema r)) (otherConds s)))),
    filter (\<lambda>e. \<not> ExprFromSchema e (Schema l @ Schema r)) (otherConds s))"
  by (simp add: checkConnectionAndMakeJoin_def Let_def FilterOutInPlace_eq MergeSchema_def newJoinWithEdges_def)

section \<open>Lemmas on the scan of the remaining nodes\<close>

lemma scanNodes_inv:
  assumes "scanNodes c s cur i nodes b = Inr b'"
  shows "(b' = b \<and> (\<forall>n\<in>set nodes. \<forall>x. candidateCost c s cur n = Some x \<longrightarrow> bestCost b \<le> x))
       \<or> (\<exists>pre w post j. nodes = pre @ w # post \<and> bestIdx b' = i + int (length pre)
            \<and> checkConnectionAndMakeJoin s (p cur) (p w) = (Some j, finalRemainOthers b')
            \<and> bestJoin b' = Some j \<and> bestCost b' = calcJoinCumCost c j cur w
            \<and> bestCost b' < bestCost b
            \<and> (\<forall>n\<in>set pre. \<forall>x. candidateCost c s cur n = Some x \<longrightarrow> bestCost b' < x)
            \<and> (\<forall>n\<in>set post. \<forall>x. candidateCost c s cur n = Some x \<longrightarrow> bestCost b' \<le> x))"
  using assms
proof (induction nodes arbitrary: i b)
  case Nil
  then show ?case by simp
next
  case (Cons node nodes)
  obtain oj ro where cc: "checkConnectionAndMakeJoin s (p cur) (p node) = (oj, ro)"
    by (cases "checkConnectionAndMakeJoin s (p cur) (p node)")
  show ?case
  proof (cases oj)
    case None
    with cc Cons.prems have "scanNodes c s cur (i + 1) nodes b = Inr b'" by simp
    from Cons.IH[OF this] show ?thesis
    proof (elim disjE conjE exE)
      assume "b' = b" "\<forall>n\<in>set nodes. \<forall>x. candidateCost c s cur n = Some x \<longrightarrow> bestCost b \<le> x"
      then show ?thesis using cc None by (simp add: candidateCost_def)
    next
      fix pre w post j
      assume h: "nodes = pre @ w # post" "bestIdx b' = i + 1 + int (length pre)"
        "checkConnectionAndMakeJoin s (p cur) (p w) = (Some j, finalRemainOthers b')"
        "bestJoin b' = Some j" "bestCost b' = calcJoinCumCost c j cur w"
        "bestCost b' < bestCost b"
        "\<forall>n\<in>set pre. \<forall>x. candidateCost c s cur n = Some x \<longrightarrow> bestCost b' < x"
        "\<forall>n\<in>set post. \<forall>x. candidateCost c s cur n = Some x \<longrightarrow> bestCost b' \<le> x"
      have "node # nodes = (node # pre) @ w # post \<and> bestIdx b' = i + int (length (node # pre))
            \<and> checkConnectionAndMakeJoin s (p cur) (p w) = (Some j, finalRemainOthers b')
            \<and> bestJoin b' = Some j \<and> bestCost b' = calcJoinCumCost c j cur w
            \<and> bestCost b' < bestCost b
            \<and> (\<forall>n\<in>set (node # pre). \<forall>x. candidateCost c s cur n = Some x \<longrightarrow> bestCost b' < x)
            \<and> (\<forall>n\<in>set post. \<forall>x. candidateCost c s cur n = Some x \<longrightarrow> bestCost b' \<le> x)"
        using h cc None by (simp add: candidateCost_def)
      then show ?thesis by blast
    qed
  next
    case (Some newJoin)
    with cc Cons.prems have ok: "recursiveDeriveStats c newJoin = None"
      by (auto split: option.splits)
    let ?cost = "calcJoinCumCost c newJoin cur node"
    have cand: "candidateCost c s cur node = Some ?cost"
      using cc Some by (simp add: candidateCost_def)
    show ?thesis
    proof (cases "bestCost b > ?cost")
      case True
      let ?b1 = "\<lparr>bestCost = ?cost, bestIdx = i, finalRemainOthers = ro, bestJoin = Some newJoin\<rparr>"
      from cc Some ok True Cons.prems have "scanNodes c s cur (i + 1) nodes ?b1 = Inr b'"
        by (simp add: Let_def)
      from Cons.IH[OF this] show ?thesis
      proof (elim disjE conjE exE)
        assume b': "b' = ?b1" and le: "\<forall>n\<in>set nodes. \<forall>x. candidateCost c s cur n = Some x \<longrightarrow> bestCost ?b1 \<le> x"
        have "node # nodes = [] @ node # nodes \<and> bestIdx b' = i + int (length ([]::jrNode list))
            \<and> checkConnectionAndMakeJoin s (p cur) (p node) = (Some newJoin, finalRemainOthers b')
            \<and> bestJoin b' = Some newJoin \<and> bestCost b' = calcJoinCumCost c newJoin cur node
            \<and> bestCost b' < bestCost b
            \<and> (\<forall>n\<in>set ([]::jrNode list). \<forall>x. candidateCost c s cur n = Some x \<longrightarrow> bestCost b' < x)
            \<and> (\<forall>n\<in>set nodes. \<forall>x. candidateCost c s cur n = Some x \<longrightarrow> bestCost b' \<le> x)"
          using b' le cc Some True by simp
        then show ?thesis by blast
      next
        fix pre w post j
        assume h: "nodes = pre @ w # post" "bestIdx b' = i + 1 + int (length pre)"
          "checkConnectionAndMakeJoin s (p cur) (p w) = (Some j, finalRemainOthers b')"
          "bestJoin b' = Some j" "bestCost b' = calcJoinCumCost c j cur w"
          "bestCost b' < bestCost ?b1"
          "\<forall>n\<in>set pre. \<forall>x. candidateCost c s cur n = Some x \<longrightarrow> bestCost b' < x"
          "\<forall>n\<in>set post. \<forall>x. candidateCost c s cur n = Some x \<longrightarrow> bestCost b' \<le> x"
        have "node # nodes = (node # pre) @ w # post \<and> bestIdx b' = i + int (length (node # pre))
            \<and> checkConnectionAndMakeJoin s (p cur) (p w) = (Some j, finalRemainOthers b')
            \<and> bestJoin b' = Some j \<and> bestCost b' = calcJoinCumCost c j cur w
            \<and> bestCost b' < bestCost b
            \<and> (\<forall>n\<in>set (node # pre). \<forall>x. candidateCost c s cur n = Some x \<longrightarrow> bestCost b' < x)
            \<and> (\<forall>n\<in>set post. \<forall>x. candidateCost c s cur n = Some x \<longrightarrow> bestCost b' \<le> x)"
          using h cand True by simp
        then show ?thesis by blast
      qed
    next
      case False
      from cc Some ok False Cons.prems have "scanNodes c s cur (i + 1) nodes b = Inr b'"
        by (simp add: Let_def)
      from Cons.IH[OF this] show ?thesis
      proof (elim disjE conjE exE)
        assume "b' = b" "\<forall>n\<in>set nodes. \<forall>x. candidateCost c s cur n = Some x \<longrightarrow> bestCost b \<le> x"
        then show ?thesis using cand False by simp
      next
        fix pre w post j
        assume h: "nodes = pre @ w # post" "bestIdx b' = i + 1 + int (length pre)"
          "checkConnectionAndMakeJoin s (p cur) (p w) = (Some j, finalRemainOthers b')"
          "bestJoin b' = Some j" "bestCost b' = calcJoinCumCost c j cur w"
          "bestCost b' < bestCost b"
          "\<forall>n\<in>set pre. \<forall>x. candidateCost c s cur n = Some x \<longrightarrow> bestCost b' < x"
          "\<forall>n\<in>set post. \<forall>x. candidateCost c s cur n = Some x \<longrightarrow> bestCost b' \<le> x"
        have "node # nodes = (node # pre) @ w # post \<and> bestIdx b' = i + int (length (node # pre))
            \<and> checkConnectionAndMakeJoin s (p cur) (p w) = (Some j, finalRemainOthers b')
            \<and> bestJoin b' = Some j \<and> bestCost b' = calcJoinCumCost c j cur w
            \<and> bestCost b' < bestCost b
            \<and> (\<forall>n\<in>set (node # pre). \<forall>x. candidateCost c s cur n = Some x \<longrightarrow> bestCost b' < x)
            \<and> (\<forall>n\<in>set post. \<forall>x. candidateCost c s cur n = Some x \<longrightarrow> bestCost b' \<le> x)"
          using h cand False by simp
        then show ?thesis by blast
      qed
    qed
  qed
qed

lemma removeAt_split: "removeAt (int (length pre)) (pre @ w # post) = Return (pre @ post)"
proof -
  have "nat (int (length pre) + 1) = Suc (length pre)" by simp
  then show ?thesis by (simp add: removeAt_def del: nat_int_add)
qed

lemma scanNodes_error:
  "scanNodes c s cur i nodes b = Inl e \<Longrightarrow>
     \<exists>n\<in>set nodes. \<exists>j. fst (checkConnectionAndMakeJoin s (p cur) (p n)) = Some j \<and> recursiveDeriveStats c j = Some e"
proof (induction nodes arbitrary: i b)
  case Nil then show ?case by simp
next
  case (Cons node nodes)
  then show ?case
    by (auto simp: Let_def split: prod.splits option.splits if_splits)
qed

section \<open>Lemmas on the loops\<close>

lemma growLoop_error:
  "scanNodes c s cur 0 (curJoinGroup s) initBest = Inl e \<Longrightarrow>
     growLoop c s cur = Some (Return (None, Some e), s)"
  by (subst growLoop.simps) simp

lemma growLoop_exhausted:
  "scanNodes c s cur 0 (curJoinGroup s) initBest = Inr b \<Longrightarrow> bestJoin b = None \<Longrightarrow>
     growLoop c s cur = Some (Return (Some cur, None), s)"
  by (subst growLoop.simps) simp

lemma scanNodes_no_winner:
  assumes "scanNodes c s cur 0 nodes initBest = Inr b" "bestJoin b = None"
  shows "b = initBest \<and> (\<forall>n\<in>set nodes. \<forall>x. candidateCost c s cur n = Some x \<longrightarrow> MaxFloat64 \<le> x)"
  using scanNodes_inv[OF assms(1)] assms(2) by (auto simp: initBest_def)

lemma scanNodes_winner:
  assumes "scanNodes c s cur 0 nodes initBest = Inr b" "bestJoin b = Some j"
  shows "\<exists>pre w post. nodes = pre @ w # post \<and> bestIdx b = int (length pre)
            \<and> checkConnectionAndMakeJoin s (p cur) (p w) = (Some j, finalRemainOthers b)
            \<and> bestCost b = calcJoinCumCost c j cur w
            \<and> bestCost b < MaxFloat64
            \<and> (\<forall>n\<in>set pre. \<forall>x. candidateCost c s cur n = Some x \<longrightarrow> bestCost b < x)
            \<and> (\<forall>n\<in>set post. \<forall>x. candidateCost c s cur n = Some x \<longrightarrow> bestCost b \<le> x)"
  using scanNodes_inv[OF assms(1)] assms(2) by (auto simp: initBest_def)

lemma growLoop_commit:
  assumes "scanNodes c s cur 0 (curJoinGroup s) initBest = Inr b" "bestJoin b = Some j"
    "curJoinGroup s = pre @ w # post" "bestIdx b = int (length pre)"
  shows "growLoop c s cur =
     growLoop c (s\<lparr>curJoinGroup := pre @ post, otherConds := finalRemainOthers b\<rparr>)
       \<lparr>p = j, cumCost = bestCost b\<rparr>"
proof -
  have "removeAt (bestIdx b) (curJoinGroup s) = Return (pre @ post)"
    using assms(3,4) removeAt_split by simp
  then show ?thesis by (subst growLoop.simps) (simp add: assms(1,2))
qed

text \<open>The rule of the loop: an invariant kept by every committed merge holds at the return.\<close>

lemma growLoop_rule:
  assumes inv: "I s cur"
    and step: "\<And>s cur b j pre w post. I s cur \<Longrightarrow>
        scanNodes c s cur 0 (curJoinGroup s) initBest = Inr b \<Longrightarrow> bestJoin b = Some j \<Longrightarrow>
        curJoinGroup s = pre @ w # post \<Longrightarrow> bestIdx b = int (length pre) \<Longrightarrow>
        checkConnectionAndMakeJoin s (p cur) (p w) = (Some j, finalRemainOthers b) \<Longrightarrow>
        bestCost b = calcJoinCumCost c j cur w \<Longrightarrow>
        I (s\<lparr>curJoinGroup := pre @ post, otherConds := finalRemainOthers b\<rparr>)
          \<lparr>p = j, cumCost = bestCost b\<rparr>"
  shows "\<exists>s' cur'. I s' cur' \<and>
     ((growLoop c s cur = Some (Return (Some cur', None), s')
         \<and> scanNodes c s' cur' 0 (curJoinGroup s') initBest = Inr initBest)
      \<or> (\<exists>e. growLoop c s cur = Some (Return (None, Some e), s')
         \<and> scanNodes c s' cur' 0 (curJoinGroup s') initBest = Inl e))"
  using inv
proof (induction "length (curJoinGroup s)" arbitrary: s cur rule: less_induct)
  case less
  show ?case
  proof (cases "scanNodes c s cur 0 (curJoinGroup s) initBest")
    case (Inl e)
    from growLoop_error[OF Inl] Inl less.prems show ?thesis by blast
  next
    case (Inr b)
    show ?thesis
    proof (cases "bestJoin b")
      case None
      from scanNodes_no_winner[OF Inr None] have "b = initBest" by simp
      with growLoop_exhausted[OF Inr None] Inr less.prems show ?thesis by blast
    next
      case (Some j)
      from scanNodes_winner[OF Inr Some] obtain pre w post where
        h: "curJoinGroup s = pre @ w # post" "bestIdx b = int (length pre)"
           "checkConnectionAndMakeJoin s (p cur) (p w) = (Some j, finalRemainOthers b)"
           "bestCost b = calcJoinCumCost c j cur w"
        by blast
      let ?s1 = "s\<lparr>curJoinGroup := pre @ post, otherConds := finalRemainOthers b\<rparr>"
      let ?c1 = "\<lparr>p = j, cumCost = bestCost b\<rparr>"
      have I1: "I ?s1 ?c1" using step[OF less.prems Inr Some h] .
      have len: "length (curJoinGroup ?s1) < length (curJoinGroup s)" using h(1) by simp
      from less.hyps[OF len I1] growLoop_commit[OF Inr Some h(1,2)]
      show ?thesis by simp
    qed
  qed
qed

lemma growLoop_total: "\<exists>r s'. growLoop c s cur = Some (Return r, s')"
  using growLoop_rule[of "\<lambda>s cur. True" s cur c] by auto

lemma growLoop_length:
  "growLoop c s cur = Some (r, s') \<Longrightarrow> length (curJoinGroup s') \<le> length (curJoinGroup s)"
  using growLoop_rule[of "\<lambda>s1 cur1. length (curJoinGroup s1) \<le> length (curJoinGroup s)" s cur c]
  by auto

lemma constructConnectedJoinTree_total:
  "curJoinGroup s \<noteq> [] \<Longrightarrow> \<exists>r s'. constructConnectedJoinTree c s = Some (Return r, s')
      \<and> length (curJoinGroup s') < length (curJoinGroup s)
      \<and> ((\<exists>n. r = (Some n, None)) \<or> (\<exists>e. r = (None, Some e)))"
proof -
  assume "curJoinGroup s \<noteq> []"
  then obtain cur rest where cr: "curJoinGroup s = cur # rest" by (cases "curJoinGroup s") auto
  let ?s0 = "s\<lparr>curJoinGroup := rest\<rparr>"
  from growLoop_rule[of "\<lambda>s1 cur1. length (curJoinGroup s1) \<le> length rest" ?s0 cur c]
  obtain s' cur' where "length (curJoinGroup s') \<le> length rest"
    "growLoop c ?s0 cur = Some (Return (Some cur', None), s') \<or>
       (\<exists>e. growLoop c ?s0 cur = Some (Return (None, Some e), s'))"
    by auto
  then show ?thesis using cr by (auto simp: constructConnectedJoinTree_def)
qed

lemma constructConnectedJoinTree_cases:
  assumes "curJoinGroup s \<noteq> []"
  obtains (ok) n s' where "constructConnectedJoinTree c s = Some (Return (Some n, None), s')"
      "length (curJoinGroup s') < length (curJoinGroup s)"
    | (fail) e s' where "constructConnectedJoinTree c s = Some (Return (None, Some e), s')"
      "length (curJoinGroup s') < length (curJoinGroup s)"
  using constructConnectedJoinTree_total[OF assms, of c] by blast

lemma solveLoop_done:
  "curJoinGroup s = [] \<Longrightarrow> solveLoop c s cart = Some (Return (makeBushyJoin cart, None), s)"
  by (subst solveLoop.simps) simp

lemma solveLoop_next:
  "curJoinGroup s \<noteq> [] \<Longrightarrow> constructConnectedJoinTree c s = Some (Return (Some n, None), s') \<Longrightarrow>
     solveLoop c s cart = solveLoop c s' (cart @ [p n])"
  by (subst solveLoop.simps) simp

lemma solveLoop_fail:
  "curJoinGroup s \<noteq> [] \<Longrightarrow> constructConnectedJoinTree c s = Some (Return (r, Some e), s') \<Longrightarrow>
     solveLoop c s cart = Some (Return (None, Some e), s')"
  by (subst solveLoop.simps) (simp split: option.splits)

lemma solveLoop_rule:
  assumes inv: "J s cart"
    and step: "\<And>s cart n s'. J s cart \<Longrightarrow> curJoinGroup s \<noteq> [] \<Longrightarrow>
        constructConnectedJoinTree c s = Some (Return (Some n, None), s') \<Longrightarrow> J s' (cart @ [p n])"
  shows "(\<exists>s' cart'. J s' cart' \<and> curJoinGroup s' = []
            \<and> solveLoop c s cart = Some (Return (makeBushyJoin cart', None), s'))
      \<or> (\<exists>e s1 cart1 s'. J s1 cart1 \<and> curJoinGroup s1 \<noteq> []
            \<and> constructConnectedJoinTree c s1 = Some (Return (None, Some e), s')
            \<and> solveLoop c s cart = Some (Return (None, Some e), s'))"
  using inv
proof (induction "length (curJoinGroup s)" arbitrary: s cart rule: less_induct)
  case less
  show ?case
  proof (cases "curJoinGroup s = []")
    case True
    from solveLoop_done[OF True] less.prems True show ?thesis by blast
  next
    case False
    from False show ?thesis
    proof (cases rule: constructConnectedJoinTree_cases[where c = c])
      case (ok n s')
      have "J s' (cart @ [p n])" using step[OF less.prems False ok(1)] .
      from less.hyps[OF ok(2) this] solveLoop_next[OF False ok(1)]
      show ?thesis by simp
    next
      case (fail e s')
      from solveLoop_fail[OF False fail(1)] fail(1) False less.prems show ?thesis by blast
    qed
  qed
qed

lemma seedGroup_ok:
  "\<forall>n\<in>set ns. recursiveDeriveStats c n = None \<Longrightarrow>
     seedGroup c s ns = (None, s\<lparr>curJoinGroup := curJoinGroup s @
        map (\<lambda>n. \<lparr>p = n, cumCost = baseNodeCumCost c n\<rparr>) ns\<rparr>)"
  by (induction ns arbitrary: s) auto

lemma seedGroup_fail:
  "\<forall>n\<in>set pre. recursiveDeriveStats c n = None \<Longrightarrow> recursiveDeriveStats c n = Some e \<Longrightarrow>
     seedGroup c s (pre @ n # post) = (Some e, s\<lparr>curJoinGroup := curJoinGroup s @
        map (\<lambda>n. \<lparr>p = n, cumCost = baseNodeCumCost c n\<rparr>) pre\<rparr>)"
  by (induction pre arbitrary: s) auto

lemma seedGroup_cases:
  "(seedGroup c s ns = (None, s\<lparr>curJoinGroup := curJoinGroup s @
        map (\<lambda>n. \<lparr>p = n, cumCost = baseNodeCumCost c n\<rparr>) ns\<rparr>) \<and> (\<forall>n\<in>set ns. recursiveDeriveStats c n = None))
   \<or> (\<exists>pre n post e. ns = pre @ n # post \<and> (\<forall>n\<in>set pre. recursiveDeriveStats c n = None) \<and> recursiveDeriveStats c n = Some e
        \<and> seedGroup c s ns = (Some e, s\<lparr>curJoinGroup := curJoinGroup s @
        map (\<lambda>n. \<lparr>p = n, cumCost = baseNodeCumCost c n\<rparr>) pre\<rparr>))"
proof (cases "\<forall>n\<in>set ns. recursiveDeriveStats c n = None")
  case True
  with seedGroup_ok[OF True] show ?thesis by simp
next
  case False
  then have "\<exists>n\<in>set ns. recursiveDeriveStats c n \<noteq> None" by simp
  from split_list_first_prop[OF this] obtain pre n post where
    h: "ns = pre @ n # post" "recursiveDeriveStats c n \<noteq> None"
       "\<forall>m\<in>set pre. \<not> recursiveDeriveStats c m \<noteq> None" by blast
  then obtain e where e: "recursiveDeriveStats c n = Some e" by auto
  from h(3) have pre: "\<forall>m\<in>set pre. recursiveDeriveStats c m = None" by simp
  from seedGroup_fail[OF pre e] h(1) pre e show ?thesis by blast
qed

lemma solveLoop_total: "\<exists>r s'. solveLoop c s cart = Some (Return r, s')"
  using solveLoop_rule[of "\<lambda>s cart. True" s cart c] by auto

lemma solve_total: "\<exists>r s'. solve c s ns = Some (Return r, s')"
  using seedGroup_cases[of c s ns] solveLoop_total
  by (auto simp: solve_def)

lemma growLoop_error_origin:
  assumes "growLoop c s cur = Some (Return (r, Some e), s')"
  shows "r = None \<and> (\<exists>cur'. scanNodes c s' cur' 0 (curJoinGroup s') initBest = Inl e)"
  using growLoop_rule[of "\<lambda>s cur. True" s cur c] assms by auto

lemma constructConnectedJoinTree_error_origin:
  assumes "constructConnectedJoinTree c s = Some (Return (r, Some e), s')"
  shows "r = None \<and> (\<exists>cur'. scanNodes c s' cur' 0 (curJoinGroup s') initBest = Inl e)"
  using assms growLoop_error_origin
  by (auto simp: constructConnectedJoinTree_def split: list.splits)

lemma solveLoop_error_origin:
  assumes "solveLoop c s cart = Some (Return (r, Some e), s')"
  shows "r = None \<and> (\<exists>cur'. scanNodes c s' cur' 0 (curJoinGroup s') initBest = Inl e)"
  using solveLoop_rule[of "\<lambda>s cart. True" s cart c] assms constructConnectedJoinTree_error_origin
  by auto

text \<open>The definitions the examples are evaluated with.\<close>

lemmas ex_defs = exCollab_def exGroup_def exEdges_def exFresh_def exTree_def exState_def
  initBest_def checkConnectionAndMakeJoin_def Contains_def MergeSchema_def newJoinWithEdges_def
  MaxFloat64_def removeAt_def candidateCost_def constructConnectedJoinTree_def solve_def
  newCartesianJoin_def


section \<open>Lemmas on failing derivations and on the state of the solver\<close>

lemma cc_result:
  assumes "checkConnectionAndMakeJoin s l r = (Some j, remain)"
  shows "usedEdges l r (eqEdges s) \<noteq> []"
    and "j = LogicalJoin l r (usedEdges l r (eqEdges s))
           (rev (filter (\<lambda>e. ExprFromSchema e (Schema l @ Schema r)) (otherConds s)))"
    and "remain = filter (\<lambda>e. \<not> ExprFromSchema e (Schema l @ Schema r)) (otherConds s)"
proof -
  show ne: "usedEdges l r (eqEdges s) \<noteq> []" using assms cc_None[of s l r] by auto
  from cc_Some[OF ne] assms
  show "j = LogicalJoin l r (usedEdges l r (eqEdges s))
           (rev (filter (\<lambda>e. ExprFromSchema e (Schema l @ Schema r)) (otherConds s)))"
    and "remain = filter (\<lambda>e. \<not> ExprFromSchema e (Schema l @ Schema r)) (otherConds s)"
    by auto
qed

lemma scanNodes_fail:
  assumes "\<forall>m\<in>set pre. \<forall>j. fst (checkConnectionAndMakeJoin s (p cur) (p m)) = Some j \<longrightarrow>
             recursiveDeriveStats c j = None"
    and "fst (checkConnectionAndMakeJoin s (p cur) (p n)) = Some j"
    and "recursiveDeriveStats c j = Some e"
  shows "scanNodes c s cur i (pre @ n # post) b = Inl e"
  using assms
proof (induction pre arbitrary: i b)
  case Nil
  then show ?case by (auto split: prod.splits option.splits)
next
  case (Cons m pre)
  then show ?case by (auto simp: Let_def split: prod.splits option.splits)
qed

lemma growLoop_shrinks:
  assumes "growLoop c s cur = Some (r, s')"
  shows "eqEdges s' = eqEdges s \<and> set (curJoinGroup s') \<subseteq> set (curJoinGroup s)
     \<and> mset (otherConds s') \<subseteq># mset (otherConds s)"
proof -
  let ?I = "\<lambda>(s1::solver) (cur1::jrNode). eqEdges s1 = eqEdges s \<and> set (curJoinGroup s1) \<subseteq> set (curJoinGroup s)
     \<and> mset (otherConds s1) \<subseteq># mset (otherConds s)"
  have "\<exists>s' cur'. ?I s' cur' \<and>
     ((growLoop c s cur = Some (Return (Some cur', None), s')
         \<and> scanNodes c s' cur' 0 (curJoinGroup s') initBest = Inr initBest)
      \<or> (\<exists>e. growLoop c s cur = Some (Return (None, Some e), s')
         \<and> scanNodes c s' cur' 0 (curJoinGroup s') initBest = Inl e))"
  proof (rule growLoop_rule[where I = ?I])
    show "?I s cur" by simp
  next
    fix s1 cur1 and b :: best and j pre w post
    assume I: "?I s1 cur1" and g: "curJoinGroup s1 = pre @ w # post"
      and cc: "checkConnectionAndMakeJoin s1 (p cur1) (p w) = (Some j, finalRemainOthers b)"
    have "mset (finalRemainOthers b) \<subseteq># mset (otherConds s1)"
      unfolding cc_result(3)[OF cc] by simp
    with I g show "?I (s1\<lparr>curJoinGroup := pre @ post, otherConds := finalRemainOthers b\<rparr>)
          \<lparr>p = j, cumCost = bestCost b\<rparr>"
      by (auto intro: subset_mset.order_trans)
  qed
  with assms show ?thesis by auto
qed

lemma constructConnectedJoinTree_shrinks:
  assumes "constructConnectedJoinTree c s = Some (r, s')"
  shows "eqEdges s' = eqEdges s \<and> set (curJoinGroup s') \<subseteq> set (curJoinGroup s)
     \<and> mset (otherConds s') \<subseteq># mset (otherConds s)"
proof (cases "curJoinGroup s")
  case Nil
  with assms show ?thesis by (simp add: constructConnectedJoinTree_def)
next
  case (Cons cur rest)
  with assms have "growLoop c (s\<lparr>curJoinGroup := rest\<rparr>) cur = Some (r, s')"
    by (simp add: constructConnectedJoinTree_def)
  from growLoop_shrinks[OF this] Cons show ?thesis by auto
qed

lemma solveLoop_shrinks:
  assumes "solveLoop c s cart = Some (r, s')"
  shows "eqEdges s' = eqEdges s \<and> set (curJoinGroup s') \<subseteq> set (curJoinGroup s)
     \<and> mset (otherConds s') \<subseteq># mset (otherConds s)"
proof -
  let ?J = "\<lambda>(s1::solver) (cart1::plan list). eqEdges s1 = eqEdges s \<and> set (curJoinGroup s1) \<subseteq> set (curJoinGroup s)
     \<and> mset (otherConds s1) \<subseteq># mset (otherConds s)"
  have "(\<exists>s' cart'. ?J s' cart' \<and> curJoinGroup s' = []
            \<and> solveLoop c s cart = Some (Return (makeBushyJoin cart', None), s'))
      \<or> (\<exists>e s1 cart1 s'. ?J s1 cart1 \<and> curJoinGroup s1 \<noteq> []
            \<and> constructConnectedJoinTree c s1 = Some (Return (None, Some e), s')
            \<and> solveLoop c s cart = Some (Return (None, Some e), s'))"
  proof (rule solveLoop_rule[where J = ?J])
    show "?J s cart" by simp
  next
    fix s1 cart1 n s2
    assume J: "?J s1 cart1"
      and cc: "constructConnectedJoinTree c s1 = Some (Return (Some n, None), s2)"
    from constructConnectedJoinTree_shrinks[OF cc] J
    show "?J s2 (cart1 @ [p n])" by (auto intro: subset_mset.order_trans)
  qed
  then consider
      (finished) s1 cart1 where "?J s1 cart1"
        "solveLoop c s cart = Some (Return (makeBushyJoin cart1, None), s1)"
    | (fail) e s1 cart1 s2 where "?J s1 cart1"
        "constructConnectedJoinTree c s1 = Some (Return (None, Some e), s2)"
        "solveLoop c s cart = Some (Return (None, Some e), s2)"
    by blast
  then show ?thesis
  proof cases
    case finished
    with assms show ?thesis by simp
  next
    case fail
    from fail(3) assms have "s2 = s'" by simp
    with constructConnectedJoinTree_shrinks[OF fail(2)] fail(1) show ?thesis
      by (auto intro: subset_mset.order_trans)
  qed
qed

lemma seedGroup_frame:
  "seedGroup c s ns = (r, s1) \<Longrightarrow> otherConds s1 = otherConds s \<and> eqEdges s1 = eqEdges s"
  using seedGroup_cases[of c s ns] by auto

lemma solve_error_origin:
  assumes "solve c s ns = Some (Return (r, Some e), s')"
  shows "r = None \<and> (\<exists>q. recursiveDeriveStats c q = Some e)"
proof -
  from seedGroup_cases[of c s ns] show ?thesis
  proof (elim disjE exE conjE)
    assume sg: "seedGroup c s ns = (None, s\<lparr>curJoinGroup := curJoinGroup s @
        map (\<lambda>n. \<lparr>p = n, cumCost = baseNodeCumCost c n\<rparr>) ns\<rparr>)"
    with assms obtain s2 where "solveLoop c s2 [] = Some (Return (r, Some e), s')"
      by (auto simp: solve_def)
    from solveLoop_error_origin[OF this] obtain cur' where
      "r = None" "scanNodes c s' cur' 0 (curJoinGroup s') initBest = Inl e" by blast
    with scanNodes_error[OF this(2)] show ?thesis by blast
  next
    fix pre n post e'
    assume "recursiveDeriveStats c n = Some e'"
      "seedGroup c s ns = (Some e', s\<lparr>curJoinGroup := curJoinGroup s @
        map (\<lambda>n. \<lparr>p = n, cumCost = baseNodeCumCost c n\<rparr>) pre\<rparr>)"
    with assms show ?thesis by (auto simp: solve_def)
  qed
qed

lemmas ex_fail_defs = exGroup5_def exFresh5_def exFailCollab_def exSeedFailCollab_def
  solveLoop.simps growLoop.simps

lemma exFailSolve:
  "solve exFailCollab exFresh5 exGroup5 =
     Some (Return (None, Some ''stats''),
       exFresh5\<lparr>curJoinGroup := [\<lparr>p = Member 3 [4], cumCost = 3\<rparr>, \<lparr>p = Member 4 [5], cumCost = 4\<rparr>,
          \<lparr>p = Member 5 [2], cumCost = 5\<rparr>], otherConds := []\<rparr>)"
  by (simp add: ex_defs ex_fail_defs)

lemma exSeedFailSolve:
  "solve exSeedFailCollab exFresh5 exGroup5 =
     Some (Return (None, Some ''seed''),
       exFresh5\<lparr>curJoinGroup := [\<lparr>p = Member 5 [2], cumCost = 5\<rparr>, \<lparr>p = Member 1 [1], cumCost = 1\<rparr>]\<rparr>)"
  by (simp add: ex_defs ex_fail_defs)

section \<open>Lemmas on the memory of the slices\<close>

lemma filterOutLoop_inv:
  assumes "i \<le> n" "n \<le> length arr" "filterOutLoop f i arr n out = (arr', n', out')"
  shows "take n' arr' = filter (\<lambda>x. \<not> f x) (take i arr) @ drop i (take n arr)
     \<and> out' = out @ rev (filter f (take i arr)) \<and> length arr' = length arr \<and> n' \<le> n"
  using assms
proof (induction i arbitrary: arr n out)
  case 0
  then show ?case by simp
next
  case (Suc i)
  have ti: "take (Suc i) arr = take i arr @ [arr ! i]"
    using Suc.prems by (simp add: take_Suc_conv_app_nth)
  show ?case
  proof (cases "f (arr ! i)")
    case True
    let ?arr1 = "take i arr @ drop (Suc i) (take n arr) @ drop (n - 1) arr"
    from Suc.prems True have r: "filterOutLoop f i ?arr1 (n - 1) (out @ [arr ! i]) = (arr', n', out')"
      by simp
    have len1: "length ?arr1 = length arr" using Suc.prems by simp
    have a: "i \<le> n - 1" "n - 1 \<le> length ?arr1" using Suc.prems by simp_all
    have t1: "take i ?arr1 = take i arr" using Suc.prems by simp
    have t2: "take (n - 1) ?arr1 = take i arr @ drop (Suc i) (take n arr)"
      using Suc.prems by simp
    have d: "drop i (take (n - 1) ?arr1) = drop (Suc i) (take n arr)"
      unfolding t2 using Suc.prems by simp
    from Suc.IH[OF a r] show ?thesis
      unfolding t1 d len1 ti using True Suc.prems by auto
  next
    case False
    from Suc.prems False have r: "filterOutLoop f i arr n out = (arr', n', out')" by simp
    have a: "i \<le> n" using Suc.prems by simp
    have "i < length (take n arr)" using Suc.prems by simp
    from Cons_nth_drop_Suc[OF this]
    have d: "drop i (take n arr) = arr ! i # drop (Suc i) (take n arr)"
      using Suc.prems by simp
    from Suc.IH[OF a Suc.prems(2) r] show ?thesis
      unfolding ti d using False by simp
  qed
qed

lemma FilterOutInPlaceM_refines:
  assumes "slBase input < length h" "slLen input \<le> length (h ! slBase input)"
    and "FilterOutInPlaceM h input f = ((remained, filteredOut), h')"
  shows "(readSlice h' remained, readSlice h' filteredOut) = FilterOutInPlace (readSlice h input) f"
    and "length h' = Suc (length h)" and "\<forall>a<length h. a \<noteq> slBase input \<longrightarrow> h' ! a = h ! a"
    and "slBase remained = slBase input"
proof -
  obtain arr n out where fl:
    "filterOutLoop f (slLen input) (h ! slBase input) (slLen input) [] = (arr, n, out)"
    by (cases "filterOutLoop f (slLen input) (h ! slBase input) (slLen input) []") auto
  from assms(3) fl have r: "remained = \<lparr>slBase = slBase input, slLen = n\<rparr>"
    "filteredOut = \<lparr>slBase = length h, slLen = length out\<rparr>"
    "h' = h[slBase input := arr] @ [out]"
    by (simp_all add: FilterOutInPlaceM_def)
  from filterOutLoop_inv[OF le_refl assms(2) fl]
  have inv: "take n arr = filter (\<lambda>x. \<not> f x) (take (slLen input) (h ! slBase input))"
    "out = rev (filter f (take (slLen input) (h ! slBase input)))" by simp_all
  show "(readSlice h' remained, readSlice h' filteredOut) = FilterOutInPlace (readSlice h input) f"
    using r inv assms(1) by (simp add: readSlice_def FilterOutInPlace_eq nth_append)
  show "length h' = Suc (length h)" using r by simp
  show "\<forall>a<length h. a \<noteq> slBase input \<longrightarrow> h' ! a = h ! a" using r by (simp add: nth_append)
  show "slBase remained = slBase input" using r by simp
qed

lemma exM: "checkConnectionAndMakeJoinM exMem exSolverM (Member 0 [1]) (Member 1 [2]) =
  ((Some (LogicalJoin (Member 0 [1]) (Member 1 [2]) [EQ 1 2, EQ 1 2] [Cond 2 [2], Cond 1 [1, 2]]),
    Some \<lparr>slBase = 1, slLen = 2\<rparr>),
   [[Cond 0 [1, 3], Cond 1 [1, 2], Cond 2 [2], Cond 3 [4]],
    [Cond 0 [1, 3], Cond 3 [4], Cond 3 [4], Cond 3 [4]],
    [Cond 2 [2], Cond 1 [1, 2]]])"
  by (simp add: exMem_def exSolverM_def checkConnectionAndMakeJoinM_def FilterOutInPlaceM_def
        readSlice_def Contains_def MergeSchema_def newJoinWithEdges_def eval_nat_numeral)

section \<open>Lemmas on the components of the group\<close>









lemma joinPairs_nonempty: "ts \<noteq> [] \<Longrightarrow> joinPairs ts \<noteq> []"
  by (induction ts rule: joinPairs.induct) auto














section \<open>Lemmas on the predicates attached to the join nodes\<close>




lemma edgeCols_swap: "edgeCols (swapEdge e) = edgeCols e"
  by (cases e) auto




























section \<open>The claims on checkConnectionAndMakeJoin\<close>

text \<open>
  Claim C2. For every pair of subtrees, \<^verbatim>\<open>checkConnectionAndMakeJoin\<close> returns a join
  candidate if and only if at least one equality edge matches in one of the two
  orientations. The candidate joins the two subtrees on the matching edges, in their
  order: an edge that matches as it is is used as it is, an edge that matches swapped
  only gives a new equality with the two columns swapped. With no matching edge there is
  no candidate.
\<close>

theorem checkConnection_candidate_iff_edge_matches: "(fst (checkConnectionAndMakeJoin s l r) \<noteq> None) =
   (\<exists>e \<in> set (eqEdges s). edgeMatchesAsIs l r e \<or> edgeMatchesSwapped l r e)
  \<and> (\<forall>j. fst (checkConnectionAndMakeJoin s l r) = Some j \<longrightarrow>
       (\<exists>others. j = LogicalJoin l r
          (map (\<lambda>e. if edgeMatchesAsIs l r e then e else swapEdge e)
             (filter (\<lambda>e. edgeMatchesAsIs l r e \<or> edgeMatchesSwapped l r e) (eqEdges s))) others))"
proof (intro conjI allI impI)
  show "(fst (checkConnectionAndMakeJoin s l r) \<noteq> None) =
   (\<exists>e \<in> set (eqEdges s). edgeMatchesAsIs l r e \<or> edgeMatchesSwapped l r e)"
    by (auto simp: cc_None usedEdges_eq filter_empty_conv)
next
  fix j assume j: "fst (checkConnectionAndMakeJoin s l r) = Some j"
  then have "usedEdges l r (eqEdges s) \<noteq> []" using cc_None[of s l r] by auto
  from cc_Some[OF this] j show "\<exists>others. j = LogicalJoin l r
          (map (\<lambda>e. if edgeMatchesAsIs l r e then e else swapEdge e)
             (filter (\<lambda>e. edgeMatchesAsIs l r e \<or> edgeMatchesSwapped l r e) (eqEdges s))) others"
    by (auto simp: usedEdges_eq)
qed

theorem checkConnection_candidate_iff_edge_matches_witness:
  "fst (checkConnectionAndMakeJoin exSolver (Member 0 [1]) (Member 1 [2])) =
     Some (LogicalJoin (Member 0 [1]) (Member 1 [2]) [EQ 1 2, EQ 1 2] [Cond 2 [2], Cond 1 [1, 2]])
   \<and> fst (checkConnectionAndMakeJoin exSolver (Member 0 [1]) (Member 2 [5])) = None"
  using checkConnection_candidate_iff_edge_matches [of exSolver "Member 0 [1]" "Member 1 [2]"]
    checkConnection_candidate_iff_edge_matches [of exSolver "Member 0 [1]" "Member 2 [5]"]
  by (simp add: exSolver_def checkConnectionAndMakeJoin_def Contains_def MergeSchema_def newJoinWithEdges_def)

text \<open>
  Claim C3. When an edge matches, the residual conditions of the solver are partitioned
  against the merged schema of the two subtrees: a condition is attached to the candidate
  join if and only if every column it refers to is in the merged schema, every other
  condition is in the returned pending list, and as multisets the attached and the
  pending conditions together are the conditions of the solver (none is lost, none is
  doubled).
\<close>

theorem checkConnection_partitions_residuals:
  assumes "checkConnectionAndMakeJoin s l r = (Some j, remain)"
  shows "\<exists>used attached. j = LogicalJoin l r used attached
     \<and> (\<forall>e. e \<in> set attached \<longleftrightarrow> e \<in> set (otherConds s) \<and> set (exprCols e) \<subseteq> set (Schema l) \<union> set (Schema r))
     \<and> (\<forall>e. e \<in> set remain \<longleftrightarrow> e \<in> set (otherConds s) \<and> \<not> set (exprCols e) \<subseteq> set (Schema l) \<union> set (Schema r))
     \<and> mset attached + mset remain = mset (otherConds s)
     \<and> Schema j = MergeSchema (Schema l) (Schema r)"
proof -
  from assms have "usedEdges l r (eqEdges s) \<noteq> []" using cc_None[of s l r] by auto
  from cc_Some[OF this] assms
  have j: "j = LogicalJoin l r (usedEdges l r (eqEdges s)) (rev (filter (\<lambda>e. ExprFromSchema e (Schema l @ Schema r)) (otherConds s)))"
    and r: "remain = filter (\<lambda>e. \<not> ExprFromSchema e (Schema l @ Schema r)) (otherConds s)"
    by auto
  show ?thesis
    apply (rule exI[of _ "usedEdges l r (eqEdges s)"])
    apply (rule exI[of _ "rev (filter (\<lambda>e. ExprFromSchema e (Schema l @ Schema r)) (otherConds s))"])
    using j r by (auto simp: ExprFromSchema_iff)
qed

theorem checkConnection_partitions_residuals_witness:
  "checkConnectionAndMakeJoin exSolver (Member 0 [1]) (Member 1 [2]) =
     (Some (LogicalJoin (Member 0 [1]) (Member 1 [2]) [EQ 1 2, EQ 1 2] [Cond 2 [2], Cond 1 [1, 2]]),
      [Cond 0 [1, 3], Cond 3 [4]])
   \<and> mset [Cond 2 [2], Cond 1 [1, 2]] + mset [Cond 0 [1, 3], Cond 3 [4]] = mset (otherConds exSolver)"
proof -
  have h: "checkConnectionAndMakeJoin exSolver (Member 0 [1]) (Member 1 [2]) =
     (Some (LogicalJoin (Member 0 [1]) (Member 1 [2]) [EQ 1 2, EQ 1 2] [Cond 2 [2], Cond 1 [1, 2]]),
      [Cond 0 [1, 3], Cond 3 [4]])"
    by (simp add: exSolver_def checkConnectionAndMakeJoin_def Contains_def MergeSchema_def newJoinWithEdges_def)
  from checkConnection_partitions_residuals [OF h] h show ?thesis by auto
qed


section \<open>The claims on constructConnectedJoinTree\<close>




text \<open>
  Claim C10. The cost of a selected candidate is strictly below \<^verbatim>\<open>math.MaxFloat64\<close>, so a
  connecting candidate whose cost is \<^verbatim>\<open>math.MaxFloat64\<close> or more is never selected; when
  every connecting candidate of a step has such a cost, the scan selects nothing and the
  loop returns the current tree as if no node connected, with the state of the solver
  unchanged: the nodes stay in the remaining nodes for the later components.
\<close>

theorem sentinel_cost_candidate_never_selected:
  "(\<forall>b j. scanNodes c s cur 0 (curJoinGroup s) initBest = Inr b \<longrightarrow> bestJoin b = Some j \<longrightarrow>
       bestCost b < MaxFloat64 \<and>
       (\<exists>pre w post. curJoinGroup s = pre @ w # post \<and> bestIdx b = int (length pre)
          \<and> candidateCost c s cur w = Some (bestCost b)))
   \<and> (\<forall>b. scanNodes c s cur 0 (curJoinGroup s) initBest = Inr b \<longrightarrow>
        (\<forall>n\<in>set (curJoinGroup s). \<forall>x. candidateCost c s cur n = Some x \<longrightarrow> MaxFloat64 \<le> x) \<longrightarrow>
        bestJoin b = None \<and> growLoop c s cur = Some (Return (Some cur, None), s))"
proof (intro conjI allI impI)
  fix b j
  assume a: "scanNodes c s cur 0 (curJoinGroup s) initBest = Inr b" "bestJoin b = Some j"
  from scanNodes_winner[OF a] obtain pre w post where
    h: "curJoinGroup s = pre @ w # post" "bestIdx b = int (length pre)"
       "checkConnectionAndMakeJoin s (p cur) (p w) = (Some j, finalRemainOthers b)"
       "bestCost b = calcJoinCumCost c j cur w" "bestCost b < MaxFloat64"
    by blast
  show "bestCost b < MaxFloat64" by (rule h(5))
  have "candidateCost c s cur w = Some (bestCost b)"
    using h(3,4) by (simp add: candidateCost_def)
  with h(1,2) show "\<exists>pre w post. curJoinGroup s = pre @ w # post \<and> bestIdx b = int (length pre)
          \<and> candidateCost c s cur w = Some (bestCost b)" by blast
next
  fix b
  assume a: "scanNodes c s cur 0 (curJoinGroup s) initBest = Inr b"
    and big: "\<forall>n\<in>set (curJoinGroup s). \<forall>x. candidateCost c s cur n = Some x \<longrightarrow> MaxFloat64 \<le> x"
  show none: "bestJoin b = None"
  proof (cases "bestJoin b")
    case None then show ?thesis .
  next
    case (Some j)
    from scanNodes_winner[OF a Some] obtain pre w post where
      h: "curJoinGroup s = pre @ w # post"
         "checkConnectionAndMakeJoin s (p cur) (p w) = (Some j, finalRemainOthers b)"
         "bestCost b = calcJoinCumCost c j cur w" "bestCost b < MaxFloat64"
      by blast
    have "candidateCost c s cur w = Some (bestCost b)"
      using h(2,3) by (simp add: candidateCost_def)
    with big h(1) have "MaxFloat64 \<le> bestCost b" by simp
    with h(4) show ?thesis by simp
  qed
  show "growLoop c s cur = Some (Return (Some cur, None), s)"
    by (rule growLoop_exhausted[OF a none])
qed

theorem sentinel_cost_candidate_never_selected_witness:
  "candidateCost exSentinelCollab exPair exTree \<lparr>p = Member 5 [2], cumCost = 1\<rparr> = Some MaxFloat64
   \<and> growLoop exSentinelCollab exPair exTree = Some (Return (Some exTree, None), exPair)"
proof -
  have s: "scanNodes exSentinelCollab exPair exTree 0 (curJoinGroup exPair) initBest = Inr initBest"
    by (simp add: exSentinelCollab_def exPair_def exTree_def initBest_def
          checkConnectionAndMakeJoin_def Contains_def MergeSchema_def newJoinWithEdges_def)
  have big: "\<forall>n\<in>set (curJoinGroup exPair). \<forall>x.
      candidateCost exSentinelCollab exPair exTree n = Some x \<longrightarrow> MaxFloat64 \<le> x"
    by (simp add: exSentinelCollab_def exPair_def exTree_def candidateCost_def
          checkConnectionAndMakeJoin_def Contains_def MergeSchema_def newJoinWithEdges_def)
  have c: "candidateCost exSentinelCollab exPair exTree \<lparr>p = Member 5 [2], cumCost = 1\<rparr> = Some MaxFloat64"
    by (simp add: exSentinelCollab_def exPair_def exTree_def candidateCost_def
          checkConnectionAndMakeJoin_def Contains_def MergeSchema_def newJoinWithEdges_def)
  from sentinel_cost_candidate_never_selected [of exSentinelCollab exPair exTree] s big c show ?thesis by blast
qed


text \<open>
  Claim C7. A committed merge removes exactly one node from the remaining nodes, and the
  loops return: the growing loop from every state and tree, \<^verbatim>\<open>constructConnectedJoinTree\<close>
  from every state with a remaining node, the component loop of \<^verbatim>\<open>solve\<close> and \<^verbatim>\<open>solve\<close>
  itself from every state and group, and none of them panics.
\<close>

theorem merge_shrinks_group_and_loops_terminate:
  "(\<forall>b j. scanNodes c s cur 0 (curJoinGroup s) initBest = Inr b \<longrightarrow> bestJoin b = Some j \<longrightarrow>
      (\<exists>rest. removeAt (bestIdx b) (curJoinGroup s) = Return rest
         \<and> length rest + 1 = length (curJoinGroup s)
         \<and> growLoop c s cur =
             growLoop c (s\<lparr>curJoinGroup := rest, otherConds := finalRemainOthers b\<rparr>)
               \<lparr>p = j, cumCost = bestCost b\<rparr>))
   \<and> (\<exists>r s'. growLoop c s cur = Some (Return r, s'))
   \<and> (curJoinGroup s \<noteq> [] \<longrightarrow> (\<exists>r s'. constructConnectedJoinTree c s = Some (Return r, s')))
   \<and> (\<exists>r s'. solveLoop c s cartesianGroup = Some (Return r, s'))
   \<and> (\<exists>r s'. solve c s joinNodePlans = Some (Return r, s'))"
proof (intro conjI allI impI)
  fix b j
  assume a: "scanNodes c s cur 0 (curJoinGroup s) initBest = Inr b" "bestJoin b = Some j"
  from scanNodes_winner[OF a] obtain pre w post where
    h: "curJoinGroup s = pre @ w # post" "bestIdx b = int (length pre)" by blast
  have "removeAt (bestIdx b) (curJoinGroup s) = Return (pre @ post)"
    using h removeAt_split by simp
  moreover have "length (pre @ post) + 1 = length (curJoinGroup s)" using h(1) by simp
  ultimately show "\<exists>rest. removeAt (bestIdx b) (curJoinGroup s) = Return rest
         \<and> length rest + 1 = length (curJoinGroup s)
         \<and> growLoop c s cur =
             growLoop c (s\<lparr>curJoinGroup := rest, otherConds := finalRemainOthers b\<rparr>)
               \<lparr>p = j, cumCost = bestCost b\<rparr>"
    using growLoop_commit[OF a h] by blast
next
  show "\<exists>r s'. growLoop c s cur = Some (Return r, s')" by (rule growLoop_total)
next
  assume "curJoinGroup s \<noteq> []"
  from constructConnectedJoinTree_total[OF this]
  show "\<exists>r s'. constructConnectedJoinTree c s = Some (Return r, s')" by blast
next
  show "\<exists>r s'. solveLoop c s cartesianGroup = Some (Return r, s')" by (rule solveLoop_total)
next
  show "\<exists>r s'. solve c s joinNodePlans = Some (Return r, s')" by (rule solve_total)
qed

theorem merge_shrinks_group_and_loops_terminate_witness:
  "removeAt 1 (curJoinGroup exState) =
      Return [\<lparr>p = Member 5 [2], cumCost = 5\<rparr>, \<lparr>p = Member 3 [4], cumCost = 3\<rparr>]
   \<and> (\<exists>r s'. constructConnectedJoinTree exCollab exState = Some (Return r, s'))
   \<and> (\<exists>r s'. solve exCollab exFresh exGroup = Some (Return r, s'))"
proof -
  have ne: "curJoinGroup exState \<noteq> []" by (simp add: exState_def)
  have rm: "removeAt 1 (curJoinGroup exState) =
      Return [\<lparr>p = Member 5 [2], cumCost = 5\<rparr>, \<lparr>p = Member 3 [4], cumCost = 3\<rparr>]"
    by (simp add: exState_def removeAt_def)
  from merge_shrinks_group_and_loops_terminate [of exCollab exState exTree "[]" exGroup] merge_shrinks_group_and_loops_terminate [of exCollab exFresh exTree "[]" exGroup] ne rm
  show ?thesis by blast
qed


section \<open>The claims on failing derivations\<close>

text \<open>
  Claim C5. A failing derivation of the statistics aborts \<^verbatim>\<open>solve\<close> with that error and
  a \<^verbatim>\<open>nil\<close> plan, at both sites. On a member of the group: \<^verbatim>\<open>solve\<close> returns the error of
  the first member whose derivation fails. On a candidate of a growing step: the loop
  returns the error of the first candidate whose derivation fails, and the component loop
  of \<^verbatim>\<open>solve\<close> returns the error \<^verbatim>\<open>constructConnectedJoinTree\<close> returns. Whenever \<^verbatim>\<open>solve\<close>
  returns an error the plan is \<^verbatim>\<open>nil\<close> and the error is one a derivation gave.
\<close>

theorem derivation_failure_aborts_solve:
  "(\<forall>pre n post e. joinNodePlans = pre @ n # post \<longrightarrow>
       (\<forall>m\<in>set pre. recursiveDeriveStats c m = None) \<longrightarrow> recursiveDeriveStats c n = Some e \<longrightarrow>
       (\<exists>s'. solve c s joinNodePlans = Some (Return (None, Some e), s')))
   \<and> (\<forall>pre n post j e. curJoinGroup s = pre @ n # post \<longrightarrow>
       (\<forall>m\<in>set pre. \<forall>j. fst (checkConnectionAndMakeJoin s (p cur) (p m)) = Some j \<longrightarrow>
             recursiveDeriveStats c j = None) \<longrightarrow>
       fst (checkConnectionAndMakeJoin s (p cur) (p n)) = Some j \<longrightarrow>
       recursiveDeriveStats c j = Some e \<longrightarrow>
       growLoop c s cur = Some (Return (None, Some e), s))
   \<and> (\<forall>r e s'. curJoinGroup s \<noteq> [] \<longrightarrow>
       constructConnectedJoinTree c s = Some (Return (r, Some e), s') \<longrightarrow>
       solveLoop c s cartesianGroup = Some (Return (None, Some e), s'))
   \<and> (\<forall>r e s'. solve c s joinNodePlans = Some (Return (r, Some e), s') \<longrightarrow>
       r = None \<and> (\<exists>q. recursiveDeriveStats c q = Some e))"
proof (intro conjI allI impI)
  fix pre n post e
  assume "joinNodePlans = pre @ n # post" "\<forall>m\<in>set pre. recursiveDeriveStats c m = None"
    "recursiveDeriveStats c n = Some e"
  with seedGroup_fail[of pre c n e s post]
  show "\<exists>s'. solve c s joinNodePlans = Some (Return (None, Some e), s')"
    by (simp add: solve_def)
next
  fix pre n post j e
  assume g: "curJoinGroup s = pre @ n # post"
    and a: "\<forall>m\<in>set pre. \<forall>j. fst (checkConnectionAndMakeJoin s (p cur) (p m)) = Some j \<longrightarrow>
             recursiveDeriveStats c j = None"
      "fst (checkConnectionAndMakeJoin s (p cur) (p n)) = Some j"
      "recursiveDeriveStats c j = Some e"
  have "scanNodes c s cur 0 (curJoinGroup s) initBest = Inl e"
    unfolding g by (rule scanNodes_fail[OF a])
  then show "growLoop c s cur = Some (Return (None, Some e), s)" by (rule growLoop_error)
next
  fix r e s'
  assume "curJoinGroup s \<noteq> []" "constructConnectedJoinTree c s = Some (Return (r, Some e), s')"
  then show "solveLoop c s cartesianGroup = Some (Return (None, Some e), s')"
    by (rule solveLoop_fail)
next
  fix r e s'
  assume a: "solve c s joinNodePlans = Some (Return (r, Some e), s')"
  from solve_error_origin[OF a] show "r = None" by simp
  from solve_error_origin[OF a] show "\<exists>q. recursiveDeriveStats c q = Some e" by simp
qed

theorem derivation_failure_aborts_solve_witness:
  "recursiveDeriveStats exSeedFailCollab (Member 3 [3]) = Some ''seed''
   \<and> (\<exists>s'. solve exSeedFailCollab exFresh5 exGroup5 = Some (Return (None, Some ''seed''), s'))
   \<and> solve exFailCollab exFresh5 exGroup5 =
     Some (Return (None, Some ''stats''),
       exFresh5\<lparr>curJoinGroup := [\<lparr>p = Member 3 [4], cumCost = 3\<rparr>, \<lparr>p = Member 4 [5], cumCost = 4\<rparr>,
          \<lparr>p = Member 5 [2], cumCost = 5\<rparr>], otherConds := []\<rparr>)
   \<and> (\<exists>q. recursiveDeriveStats exFailCollab q = Some ''stats'')"
proof -
  have g: "exGroup5 = [Member 5 [2], Member 1 [1]] @ Member 3 [3] # [Member 3 [4], Member 4 [5]]"
    by (simp add: exGroup5_def)
  have ok: "\<forall>m\<in>set [Member 5 [2], Member 1 [1]]. recursiveDeriveStats exSeedFailCollab m = None"
    by (simp add: exSeedFailCollab_def)
  have bad: "recursiveDeriveStats exSeedFailCollab (Member 3 [3]) = Some ''seed''"
    by (simp add: exSeedFailCollab_def)
  from derivation_failure_aborts_solve [of exGroup5 exSeedFailCollab exFresh5 exTree "[]"] g ok bad
  have 1: "\<exists>s'. solve exSeedFailCollab exFresh5 exGroup5 = Some (Return (None, Some ''seed''), s')"
    by blast
  from derivation_failure_aborts_solve [of exGroup5 exFailCollab exFresh5 exTree "[]"] exFailSolve
  have 2: "\<exists>q. recursiveDeriveStats exFailCollab q = Some ''stats''" by blast
  from 1 2 bad exFailSolve show ?thesis by simp
qed

text \<open>
  Claim C6, as stated, fails: the solver has no rollback. In the group of five members
  the derivation fails on the third candidate of the second growing step; \<^verbatim>\<open>solve\<close>
  returns the error, and the state of the solver it leaves is not the state it started
  from: three nodes remain where there were none, and the pending residual condition,
  attached to the join of the first step, is gone.
\<close>

theorem failed_solve_leaves_state_mutated:
  "solve exFailCollab exFresh5 exGroup5 =
     Some (Return (None, Some ''stats''),
       exFresh5\<lparr>curJoinGroup := [\<lparr>p = Member 3 [4], cumCost = 3\<rparr>, \<lparr>p = Member 4 [5], cumCost = 4\<rparr>,
          \<lparr>p = Member 5 [2], cumCost = 5\<rparr>], otherConds := []\<rparr>)
   \<and> exFresh5\<lparr>curJoinGroup := [\<lparr>p = Member 3 [4], cumCost = 3\<rparr>, \<lparr>p = Member 4 [5], cumCost = 4\<rparr>,
          \<lparr>p = Member 5 [2], cumCost = 5\<rparr>], otherConds := []\<rparr> \<noteq> exFresh5
   \<and> curJoinGroup exFresh5 = [] \<and> otherConds exFresh5 = [Cond 0 [1, 3]]"
  using exFailSolve by (simp add: exFresh5_def)

text \<open>
  Claim C6, amended. When the members are seeded and \<^verbatim>\<open>solve\<close> returns an error, the plan
  is \<^verbatim>\<open>nil\<close> and the state left is the state in which the failing growing step started:
  the scan of that step fails from it with that error and the loop returns it unchanged.
  What \<^verbatim>\<open>solve\<close> did before that step is not undone: the edges are those of the start, the
  remaining nodes are among the seeded nodes and the pending conditions among the
  conditions of the start.
\<close>

theorem failed_step_keeps_state_it_started_from:
  assumes "seedGroup c s joinNodePlans = (None, s1)"
    and "solve c s joinNodePlans = Some (Return (r, Some e), s')"
  shows "r = None
     \<and> (\<exists>cur. scanNodes c s' cur 0 (curJoinGroup s') initBest = Inl e
           \<and> growLoop c s' cur = Some (Return (None, Some e), s'))
     \<and> eqEdges s' = eqEdges s
     \<and> set (curJoinGroup s') \<subseteq> set (curJoinGroup s1)
     \<and> mset (otherConds s') \<subseteq># mset (otherConds s)"
proof -
  let ?s2 = "s1\<lparr>curJoinGroup := sort_key cumCost (curJoinGroup s1)\<rparr>"
  from assms have sl: "solveLoop c ?s2 [] = Some (Return (r, Some e), s')"
    by (simp add: solve_def)
  from solveLoop_error_origin[OF sl] obtain cur where
    r: "r = None" and sc: "scanNodes c s' cur 0 (curJoinGroup s') initBest = Inl e" by blast
  from solveLoop_shrinks[OF sl] seedGroup_frame[OF assms(1)]
  have "eqEdges s' = eqEdges s" "set (curJoinGroup s') \<subseteq> set (curJoinGroup s1)"
    "mset (otherConds s') \<subseteq># mset (otherConds s)" by auto
  with r sc growLoop_error[OF sc] show ?thesis by blast
qed

theorem failed_step_keeps_state_it_started_from_witness:
  "seedGroup exFailCollab exFresh5 exGroup5 =
      (None, exFresh5\<lparr>curJoinGroup := map (\<lambda>n. \<lparr>p = n, cumCost = baseNodeCumCost exFailCollab n\<rparr>) exGroup5\<rparr>)
   \<and> (\<exists>cur. growLoop exFailCollab
        (exFresh5\<lparr>curJoinGroup := [\<lparr>p = Member 3 [4], cumCost = 3\<rparr>, \<lparr>p = Member 4 [5], cumCost = 4\<rparr>,
          \<lparr>p = Member 5 [2], cumCost = 5\<rparr>], otherConds := []\<rparr>) cur =
       Some (Return (None, Some ''stats''),
        exFresh5\<lparr>curJoinGroup := [\<lparr>p = Member 3 [4], cumCost = 3\<rparr>, \<lparr>p = Member 4 [5], cumCost = 4\<rparr>,
          \<lparr>p = Member 5 [2], cumCost = 5\<rparr>], otherConds := []\<rparr>))"
proof -
  have sg: "seedGroup exFailCollab exFresh5 exGroup5 =
      (None, exFresh5\<lparr>curJoinGroup := map (\<lambda>n. \<lparr>p = n, cumCost = baseNodeCumCost exFailCollab n\<rparr>) exGroup5\<rparr>)"
    by (simp add: exFailCollab_def exFresh5_def exGroup5_def)
  from failed_step_keeps_state_it_started_from [OF sg exFailSolve] sg show ?thesis by blast
qed


section \<open>The claim on the state of the solver during a call\<close>

text \<open>
  Claim C9. A call of \<^verbatim>\<open>checkConnectionAndMakeJoin\<close> writes to no array that was
  allocated before it, so the remaining nodes, the edges and the pending conditions of the
  solver are after the call what they were before it; the pending list it returns lies
  in an array of its own, allocated by the call, and the join and the list it computes in
  memory are those of the function on values. The state of the solver changes in the
  growing loop only: a loop that returns a state other than the one it started from has
  committed a winning candidate.
\<close>

theorem checkConnection_leaves_solver_state_alone:
  assumes "slBase (otherCondsM s) < length h"
    and "slLen (otherCondsM s) \<le> length (h ! slBase (otherCondsM s))"
    and "checkConnectionAndMakeJoinM h s leftNode rightNode = ((j, remain), h')"
  shows "(\<forall>a<length h. h' ! a = h ! a)
     \<and> solverOf h' s = solverOf h s
     \<and> j = fst (checkConnectionAndMakeJoin (solverOf h s) leftNode rightNode)
     \<and> (case remain of
          None \<Rightarrow> j = None
        | Some sl \<Rightarrow> length h \<le> slBase sl
            \<and> readSlice h' sl = snd (checkConnectionAndMakeJoin (solverOf h s) leftNode rightNode))
     \<and> (\<forall>c s0 cur r s1. growLoop c s0 cur = Some (r, s1) \<longrightarrow> s1 \<noteq> s0 \<longrightarrow>
           (\<exists>b w. scanNodes c s0 cur 0 (curJoinGroup s0) initBest = Inr b \<and> bestJoin b = Some w))"
proof -
  have commit: "\<exists>b w. scanNodes c s0 cur 0 (curJoinGroup s0) initBest = Inr b \<and> bestJoin b = Some w"
    if g: "growLoop c s0 cur = Some (r, s1)" and ne: "s1 \<noteq> s0" for c s0 cur r s1
  proof (cases "scanNodes c s0 cur 0 (curJoinGroup s0) initBest")
    case (Inl e)
    from growLoop_error[OF Inl] g ne show ?thesis by simp
  next
    case (Inr b)
    show ?thesis
    proof (cases "bestJoin b")
      case None
      from growLoop_exhausted[OF Inr None] g ne show ?thesis by simp
    next
      case (Some w)
      with Inr show ?thesis by blast
    qed
  qed
  let ?rs = "\<lparr>slBase = length h, slLen = slLen (otherCondsM s)\<rparr>"
  let ?h1 = "h @ [readSlice h (otherCondsM s)]"
  let ?used = "usedEdges leftNode rightNode (eqEdgesM s)"
  let ?f = "\<lambda>e. ExprFromSchema e (MergeSchema (Schema leftNode) (Schema rightNode))"
  have rd1: "readSlice ?h1 ?rs = readSlice h (otherCondsM s)"
    using assms(2) by (simp add: readSlice_def)
  show ?thesis
  proof (cases "?used = []")
    case True
    with assms(3) have "j = None" "remain = None" "h' = ?h1"
      by (simp_all add: checkConnectionAndMakeJoinM_def Let_def)
    with True assms(1) commit show ?thesis
      by (simp add: nth_append solverOf_def readSlice_def checkConnectionAndMakeJoin_def)
  next
    case False
    obtain rem others h2 where fo: "FilterOutInPlaceM ?h1 ?rs ?f = ((rem, others), h2)"
      by (cases "FilterOutInPlaceM ?h1 ?rs ?f") auto
    with False assms(3) have r: "j = Some (newJoinWithEdges leftNode rightNode ?used (readSlice h2 others))"
      "remain = Some rem" "h' = h2"
      by (auto simp: checkConnectionAndMakeJoinM_def Let_def)
    have v1: "slBase ?rs < length ?h1" by simp
    have v2: "slLen ?rs \<le> length (?h1 ! slBase ?rs)" using assms(2) by (simp add: readSlice_def)
    note ref = FilterOutInPlaceM_refines[OF v1 v2 fo]
    have old: "\<forall>a<length h. h' ! a = h ! a"
      using ref(3) r(3) by (auto simp: nth_append)
    have same: "solverOf h' s = solverOf h s"
      using old assms(1) by (simp add: solverOf_def readSlice_def)
    have pure: "checkConnectionAndMakeJoin (solverOf h s) leftNode rightNode =
        (Some (newJoinWithEdges leftNode rightNode ?used (readSlice h2 others)), readSlice h2 rem)"
    proof -
      have "FilterOutInPlace (readSlice h (otherCondsM s)) ?f = (readSlice h2 rem, readSlice h2 others)"
        using ref(1) rd1 by simp
      with False show ?thesis
        by (simp add: checkConnectionAndMakeJoin_def Let_def solverOf_def)
    qed
    show ?thesis using old same pure r ref(4) commit by simp
  qed
qed


theorem checkConnection_leaves_solver_state_alone_witness:
  "checkConnectionAndMakeJoinM exMem exSolverM (Member 0 [1]) (Member 1 [2]) =
  ((Some (LogicalJoin (Member 0 [1]) (Member 1 [2]) [EQ 1 2, EQ 1 2] [Cond 2 [2], Cond 1 [1, 2]]),
    Some \<lparr>slBase = 1, slLen = 2\<rparr>),
   [[Cond 0 [1, 3], Cond 1 [1, 2], Cond 2 [2], Cond 3 [4]],
    [Cond 0 [1, 3], Cond 3 [4], Cond 3 [4], Cond 3 [4]],
    [Cond 2 [2], Cond 1 [1, 2]]])
   \<and> solverOf [[Cond 0 [1, 3], Cond 1 [1, 2], Cond 2 [2], Cond 3 [4]],
    [Cond 0 [1, 3], Cond 3 [4], Cond 3 [4], Cond 3 [4]],
    [Cond 2 [2], Cond 1 [1, 2]]] exSolverM = solverOf exMem exSolverM
   \<and> otherConds (solverOf exMem exSolverM) = [Cond 0 [1, 3], Cond 1 [1, 2], Cond 2 [2], Cond 3 [4]]"
proof -
  have v1: "slBase (otherCondsM exSolverM) < length exMem" by (simp add: exMem_def exSolverM_def)
  have v2: "slLen (otherCondsM exSolverM) \<le> length (exMem ! slBase (otherCondsM exSolverM))"
    by (simp add: exMem_def exSolverM_def)
  have o: "otherConds (solverOf exMem exSolverM) = [Cond 0 [1, 3], Cond 1 [1, 2], Cond 2 [2], Cond 3 [4]]"
    by (simp add: exMem_def exSolverM_def solverOf_def readSlice_def)
  from checkConnection_leaves_solver_state_alone [OF v1 v2 exM] exM o show ?thesis by simp
qed


section \<open>The claim on the components and the bushy join\<close>





section \<open>The claim on the predicates of the final tree\<close>




end
